theory Spec2Isabelle
  imports Complex_Main
begin

section \<open>Python values and exceptions\<close>

text \<open>
  The values the client handles are the ones \<^verbatim>\<open>json.loads\<close> and \<^verbatim>\<open>response.json()\<close>
  produce: \<^verbatim>\<open>None\<close>, \<^verbatim>\<open>bool\<close>, \<^verbatim>\<open>int\<close>, \<^verbatim>\<open>float\<close>, \<^verbatim>\<open>str\<close>, \<^verbatim>\<open>list\<close> and \<^verbatim>\<open>dict\<close>.
  A \<^verbatim>\<open>dict\<close> is an association list in insertion order (the order \<^verbatim>\<open>items()\<close> yields);
  a \<^verbatim>\<open>dict\<close> holds no key twice, which the theorems assume of a dict where they need it.
  Texts are lists of characters below 256.
\<close>

datatype json =
    JNull
  | JBool bool
  | JInt int
  | JFloat real
  | JString string
  | JArray "json list"
  | JObject "(string \<times> json) list"

text \<open>\<^verbatim>\<open>d.get(key, default)\<close> and \<^verbatim>\<open>d[key] = v\<close> on a dict.\<close>

definition dict_get :: "(string \<times> 'a) list \<Rightarrow> string \<Rightarrow> 'a \<Rightarrow> 'a" where
  "dict_get d key dflt = (case map_of d key of None \<Rightarrow> dflt | Some v \<Rightarrow> v)"

fun dict_set :: "(string \<times> 'a) list \<Rightarrow> string \<Rightarrow> 'a \<Rightarrow> (string \<times> 'a) list" where
  "dict_set [] key v = [(key, v)]"
| "dict_set ((k, w) # d) key v = (if k = key then (k, v) # d else (k, w) # dict_set d key v)"

text \<open>
  \<^verbatim>\<open>errors.py\<close>: the exception classes.  \<^verbatim>\<open>I3XError\<close> is the base class; an error's kind
  is the class it was raised as.  The message is what \<^verbatim>\<open>str()\<close> was applied to: a text, or
  a decoded value that is not a \<^verbatim>\<open>str\<close> (its rendering is kept symbolic).
\<close>

datatype error_kind =
    I3XError
  | ConnectionError
  | AuthenticationError
  | NotFoundError
  | ServerError
  | TimeoutError
  | SubscriptionError
  | StreamError

datatype msg = Text string | StrOf json

fun py_str :: "json \<Rightarrow> msg" where
  "py_str (JString s) = Text s"
| "py_str j = StrOf j"

record i3x_error =
  kind :: error_kind
  message :: msg
  status_code :: "int option"

text \<open>
  What a call can raise: an error of the library, one of Python's own exceptions, or an
  \<^verbatim>\<open>httpx\<close> exception the transport lets through (with \<^verbatim>\<open>str(exc)\<close>).
\<close>

datatype exn =
    I3X i3x_error
  | AttributeError
  | TypeError
  | JSONDecodeError
  | ValueError
  | HttpxError string

section \<open>Text helpers\<close>

text \<open>\<^verbatim>\<open>s.startswith(p)\<close> and \<^verbatim>\<open>p in s\<close>.\<close>

definition startswith :: "string \<Rightarrow> string \<Rightarrow> bool" where
  "startswith s p = (take (length p) s = p)"

fun contains :: "string \<Rightarrow> string \<Rightarrow> bool" where
  "contains p [] = (p = [])"
| "contains p (c # cs) = (startswith (c # cs) p \<or> contains p cs)"

section \<open>\<^verbatim>\<open>_transport.py\<close>\<close>

record response =
  r_status_code :: int
  r_content_type :: "string option"
  r_text :: string

text \<open>\<^verbatim>\<open>_STATUS_MAP\<close>.\<close>

definition STATUS_MAP :: "int \<Rightarrow> error_kind option" where
  "STATUS_MAP = [401 \<mapsto> AuthenticationError, 403 \<mapsto> AuthenticationError, 404 \<mapsto> NotFoundError]"

text \<open>
  \<^verbatim>\<open>Transport._check_status\<close>.  \<^verbatim>\<open>loads\<close> stands for \<^verbatim>\<open>json.loads\<close> (\<^verbatim>\<open>None\<close> when it
  raises); \<^verbatim>\<open>response.json()\<close> is \<^verbatim>\<open>loads\<close> of the body.  A body that is not JSON, or
  whose JSON is not a dict, makes the \<^verbatim>\<open>try\<close> block raise and the message fall back to
  the raw text.
\<close>

definition error_message :: "(string \<Rightarrow> json option) \<Rightarrow> response \<Rightarrow> msg" where
  "error_message loads r =
     (case loads (r_text r) of
        Some (JObject detail) \<Rightarrow>
          py_str (dict_get detail ''detail'' (dict_get detail ''message'' (JString (r_text r))))
      | _ \<Rightarrow> Text (r_text r))"

definition check_status :: "(string \<Rightarrow> json option) \<Rightarrow> response \<Rightarrow> exn + unit" where
  "check_status loads r =
     (if r_status_code r < 400 then Inr ()
      else
        let error_cls =
              (case STATUS_MAP (r_status_code r) of
                 None \<Rightarrow> (if r_status_code r \<ge> 500 then ServerError else I3XError)
               | Some cls \<Rightarrow> cls)
        in Inl (I3X \<lparr>kind = error_cls, message = error_message loads r,
                     status_code = Some (r_status_code r)\<rparr>))"

text \<open>
  The network is the environment.  A request sent through the \<^verbatim>\<open>httpx.Client\<close> either
  raises one of the \<^verbatim>\<open>httpx\<close> exceptions (carrying \<^verbatim>\<open>str(exc)\<close>) or returns a response;
  \<^verbatim>\<open>srv\<close> decides which, from the client's configuration, the requests already sent and
  the request.  The list of requests sent is threaded through every call, so that what
  goes on the wire is part of the result.
\<close>

record request =
  req_method :: string
  req_path :: string
  req_params :: json
  req_body :: json

datatype net_outcome =
    ConnectError string
  | TimeoutException string
  | HTTPError string
  | Responded response

record httpx_client =
  c_base_url :: string
  c_headers :: "(string \<times> string) list"
  c_timeout :: real

type_synonym server = "httpx_client \<Rightarrow> request list \<Rightarrow> request \<Rightarrow> net_outcome"

record transport =
  base_url :: string
  auth :: "(string \<times> string) option"
  timeout :: real
  client :: "httpx_client option"

definition is_open :: "transport \<Rightarrow> bool" where
  "is_open t = (client t \<noteq> None)"

text \<open>
  \<^verbatim>\<open>Transport._request\<close>.  A 204 gives \<^verbatim>\<open>None\<close>, a JSON body its value, any other body
  its text.
\<close>

definition transport_request ::
  "(string \<Rightarrow> json option) \<Rightarrow> server \<Rightarrow> httpx_client \<Rightarrow> request list \<Rightarrow> request
     \<Rightarrow> (exn + json) \<times> request list" where
  "transport_request loads srv c sent req =
     (case srv c sent req of
        ConnectError s \<Rightarrow>
          (Inl (I3X \<lparr>kind = ConnectionError, message = Text s, status_code = None\<rparr>), sent @ [req])
      | TimeoutException s \<Rightarrow>
          (Inl (I3X \<lparr>kind = TimeoutError, message = Text s, status_code = None\<rparr>), sent @ [req])
      | HTTPError s \<Rightarrow>
          (Inl (I3X \<lparr>kind = I3XError, message = Text s, status_code = None\<rparr>), sent @ [req])
      | Responded r \<Rightarrow>
          (case check_status loads r of
             Inl e \<Rightarrow> (Inl e, sent @ [req])
           | Inr _ \<Rightarrow>
               if r_status_code r = 204 then (Inr JNull, sent @ [req])
               else if contains ''application/json''
                         (case r_content_type r of None \<Rightarrow> [] | Some ct \<Rightarrow> ct)
               then (case loads (r_text r) of
                       None \<Rightarrow> (Inl JSONDecodeError, sent @ [req])
                     | Some j \<Rightarrow> (Inr j, sent @ [req]))
               else (Inr (JString (r_text r)), sent @ [req])))"

text \<open>\<^verbatim>\<open>Transport._ensure_open\<close>.\<close>

definition ensure_open :: "transport \<Rightarrow> exn + httpx_client" where
  "ensure_open t =
     (case client t of
        None \<Rightarrow> Inl (I3X \<lparr>kind = ConnectionError,
                          message = Text ''Transport is not connected. Call open() first.'',
                          status_code = None\<rparr>)
      | Some c \<Rightarrow> Inr c)"

text \<open>
  \<^verbatim>\<open>Transport.get\<close>, \<^verbatim>\<open>post\<close>, \<^verbatim>\<open>put\<close> and \<^verbatim>\<open>delete\<close>: each is \<^verbatim>\<open>_ensure_open\<close> followed
  by \<^verbatim>\<open>_request\<close>.
\<close>

definition send ::
  "(string \<Rightarrow> json option) \<Rightarrow> server \<Rightarrow> transport \<Rightarrow> request list \<Rightarrow> request
     \<Rightarrow> (exn + json) \<times> request list" where
  "send loads srv t sent req =
     (case ensure_open t of
        Inl e \<Rightarrow> (Inl e, sent)
      | Inr c \<Rightarrow> transport_request loads srv c sent req)"

definition get ::
  "(string \<Rightarrow> json option) \<Rightarrow> server \<Rightarrow> transport \<Rightarrow> request list \<Rightarrow> string \<Rightarrow> json
     \<Rightarrow> (exn + json) \<times> request list" where
  "get loads srv t sent p ps =
     send loads srv t sent \<lparr>req_method = ''GET'', req_path = p, req_params = ps, req_body = JNull\<rparr>"

definition post ::
  "(string \<Rightarrow> json option) \<Rightarrow> server \<Rightarrow> transport \<Rightarrow> request list \<Rightarrow> string \<Rightarrow> json
     \<Rightarrow> (exn + json) \<times> request list" where
  "post loads srv t sent p j =
     send loads srv t sent \<lparr>req_method = ''POST'', req_path = p, req_params = JNull, req_body = j\<rparr>"

definition put ::
  "(string \<Rightarrow> json option) \<Rightarrow> server \<Rightarrow> transport \<Rightarrow> request list \<Rightarrow> string \<Rightarrow> json
     \<Rightarrow> (exn + json) \<times> request list" where
  "put loads srv t sent p j =
     send loads srv t sent \<lparr>req_method = ''PUT'', req_path = p, req_params = JNull, req_body = j\<rparr>"

definition delete ::
  "(string \<Rightarrow> json option) \<Rightarrow> server \<Rightarrow> transport \<Rightarrow> request list \<Rightarrow> string
     \<Rightarrow> (exn + json) \<times> request list" where
  "delete loads srv t sent p =
     send loads srv t sent \<lparr>req_method = ''DELETE'', req_path = p, req_params = JNull, req_body = JNull\<rparr>"

text \<open>
  \<^verbatim>\<open>Transport.stream_get\<close>: only the connect and timeout exceptions are caught here, any
  other \<^verbatim>\<open>httpx\<close> exception escapes as it is.  On success the open response is returned.
\<close>

definition stream_get ::
  "(string \<Rightarrow> json option) \<Rightarrow> server \<Rightarrow> transport \<Rightarrow> request list \<Rightarrow> string
     \<Rightarrow> (exn + response) \<times> request list" where
  "stream_get loads srv t sent p =
     (case ensure_open t of
        Inl e \<Rightarrow> (Inl e, sent)
      | Inr c \<Rightarrow>
          let req = \<lparr>req_method = ''GET'', req_path = p, req_params = JNull, req_body = JNull\<rparr> in
          (case srv c sent req of
             ConnectError s \<Rightarrow>
               (Inl (I3X \<lparr>kind = ConnectionError, message = Text s, status_code = None\<rparr>),
                sent @ [req])
           | TimeoutException s \<Rightarrow>
               (Inl (I3X \<lparr>kind = TimeoutError, message = Text s, status_code = None\<rparr>),
                sent @ [req])
           | HTTPError s \<Rightarrow> (Inl (HttpxError s), sent @ [req])
           | Responded r \<Rightarrow>
               (case check_status loads r of
                  Inl e \<Rightarrow> (Inl e, sent @ [req])
                | Inr _ \<Rightarrow> (Inr r, sent @ [req]))))"

text \<open>\<^verbatim>\<open>Transport.close\<close> and \<^verbatim>\<open>Transport.open\<close>.\<close>

definition close :: "transport \<Rightarrow> transport" where
  "close t = (if client t \<noteq> None then t\<lparr>client := None\<rparr> else t)"

definition auth_headers :: "(string \<times> string) option \<Rightarrow> (string \<times> string) list" where
  "auth_headers a =
     (case a of
        None \<Rightarrow> []
      | Some (api_key, secret) \<Rightarrow>
          dict_set (dict_set [] ''X-API-Key'' api_key) ''X-API-Secret'' secret)"

definition transport_open ::
  "(string \<Rightarrow> json option) \<Rightarrow> server \<Rightarrow> transport \<Rightarrow> request list
     \<Rightarrow> (exn + unit) \<times> transport \<times> request list" where
  "transport_open loads srv t sent =
     (if client t \<noteq> None then (Inr (), t, sent)
      else
        let t1 = t\<lparr>client := Some \<lparr>c_base_url = base_url t, c_headers = auth_headers (auth t),
                                     c_timeout = timeout t\<rparr>\<rparr>
        in (case get loads srv t1 sent ''/namespaces'' JNull of
              (Inl e, sent') \<Rightarrow> (Inl e, close t1, sent')
            | (Inr _, sent') \<Rightarrow> (Inr (), t1, sent')))"

section \<open>\<^verbatim>\<open>models.py\<close>\<close>

text \<open>
  Iterating a decoded value, as a \<^verbatim>\<open>for\<close> or a comprehension does: a list yields its
  elements, a dict its keys, a \<^verbatim>\<open>str\<close> its characters; anything else raises \<^verbatim>\<open>TypeError\<close>.
\<close>

fun py_iter :: "json \<Rightarrow> exn + json list" where
  "py_iter (JArray xs) = Inr xs"
| "py_iter (JObject d) = Inr (map (\<lambda>(k, v). JString k) d)"
| "py_iter (JString s) = Inr (map (\<lambda>c. JString [c]) s)"
| "py_iter _ = Inl TypeError"

text \<open>A comprehension \<^verbatim>\<open>[f(v) for v in xs]\<close> whose \<^verbatim>\<open>f\<close> may raise: the first error leaves it.\<close>

fun map_exn :: "('a \<Rightarrow> exn + 'b) \<Rightarrow> 'a list \<Rightarrow> exn + 'b list" where
  "map_exn f [] = Inr []"
| "map_exn f (x # xs) =
     (case f x of
        Inl e \<Rightarrow> Inl e
      | Inr y \<Rightarrow> (case map_exn f xs of Inl e \<Rightarrow> Inl e | Inr ys \<Rightarrow> Inr (y # ys)))"

record VQT =
  vqt_value :: json
  vqt_quality :: json
  vqt_timestamp :: json

text \<open>\<^verbatim>\<open>VQT.from_dict\<close>: \<^verbatim>\<open>data.get\<close> exists on a dict only.\<close>

fun VQT_from_dict :: "json \<Rightarrow> exn + VQT" where
  "VQT_from_dict (JObject d) =
     Inr \<lparr>vqt_value = dict_get d ''value'' JNull,
          vqt_quality = dict_get d ''quality'' (JString []),
          vqt_timestamp = dict_get d ''timestamp'' (JString [])\<rparr>"
| "VQT_from_dict _ = Inl AttributeError"

datatype LastKnownValue =
  LastKnownValue (lkv_element_id: string) (lkv_data: "VQT list")
    (lkv_children: "(string \<times> LastKnownValue) list")

text \<open>
  \<^verbatim>\<open>LastKnownValue.from_response\<close>.  The second function is the loop over
  \<^verbatim>\<open>value_data.items()\<close>, with the \<^verbatim>\<open>children\<close> dict built so far.
\<close>

fun from_response :: "string \<Rightarrow> json \<Rightarrow> exn + LastKnownValue"
  and from_response_items ::
    "(string \<times> json) list \<Rightarrow> (string \<times> LastKnownValue) list
       \<Rightarrow> exn + (string \<times> LastKnownValue) list" where
  "from_response element_id (JObject value_data) =
     (case py_iter (dict_get value_data ''data'' (JArray [])) of
        Inl e \<Rightarrow> Inl e
      | Inr vs \<Rightarrow>
          (case map_exn VQT_from_dict vs of
             Inl e \<Rightarrow> Inl e
           | Inr vqts \<Rightarrow>
               (case from_response_items value_data [] of
                  Inl e \<Rightarrow> Inl e
                | Inr children \<Rightarrow> Inr (LastKnownValue element_id vqts children))))"
| "from_response element_id JNull = Inl AttributeError"
| "from_response element_id (JBool b) = Inl AttributeError"
| "from_response element_id (JInt i) = Inl AttributeError"
| "from_response element_id (JFloat x) = Inl AttributeError"
| "from_response element_id (JString s) = Inl AttributeError"
| "from_response element_id (JArray xs) = Inl AttributeError"
| "from_response_items [] children = Inr children"
| "from_response_items ((key, child_data) # items) children =
     (if key = ''data'' then from_response_items items children
      else
        (case from_response key child_data of
           Inl e \<Rightarrow> Inl e
         | Inr child \<Rightarrow> from_response_items items (dict_set children key child)))"

text \<open>
  The shape of a raw snapshot payload: a dict whose \<^verbatim>\<open>data\<close> entry, when it
  has one, is a list of dicts (the VQT triples), and whose every other entry is again
  such a payload.
\<close>

fun is_dict :: "json \<Rightarrow> bool" where
  "is_dict (JObject d) = True"
| "is_dict _ = False"

fun snapshot_shaped :: "json \<Rightarrow> bool" where
  "snapshot_shaped (JObject value_data) =
     ((case map_of value_data ''data'' of
         None \<Rightarrow> True
       | Some (JArray vs) \<Rightarrow> list_all is_dict vs
       | Some _ \<Rightarrow> False) \<and>
      (\<forall>(k, v) \<in> set value_data. k \<noteq> ''data'' \<longrightarrow> snapshot_shaped v))"
| "snapshot_shaped _ = False"

record ValueChange =
  vc_element_id :: string
  vc_data :: "VQT list"
  vc_children :: "(string \<times> json) list"

text \<open>
  \<^verbatim>\<open>ValueChange.from_stream_event\<close>.  \<^verbatim>\<open>non_data\<close> is the dict comprehension
  \<^verbatim>\<open>{k: v for k, v in value_data.items() if k != "data"}\<close>, \<^verbatim>\<open>value_change\<close> the body of the
  loop over \<^verbatim>\<open>event_data.items()\<close>.
\<close>

definition non_data :: "(string \<times> json) list \<Rightarrow> (string \<times> json) list" where
  "non_data value_data =
     fold (\<lambda>(k, v) d. if k \<noteq> ''data'' then dict_set d k v else d) value_data []"

fun value_change :: "string \<times> json \<Rightarrow> exn + ValueChange" where
  "value_change (element_id, JObject value_data) =
     (case py_iter (dict_get value_data ''data'' (JArray [])) of
        Inl e \<Rightarrow> Inl e
      | Inr vs \<Rightarrow>
          (case map_exn VQT_from_dict vs of
             Inl e \<Rightarrow> Inl e
           | Inr vqts \<Rightarrow>
               Inr \<lparr>vc_element_id = element_id, vc_data = vqts,
                    vc_children = non_data value_data\<rparr>))"
| "value_change (element_id, _) = Inl AttributeError"

fun from_stream_event :: "json \<Rightarrow> exn + ValueChange list" where
  "from_stream_event (JObject event_data) = map_exn value_change event_data"
| "from_stream_event _ = Inl AttributeError"

section \<open>\<^verbatim>\<open>_sse.py\<close>\<close>

text \<open>
  An \<^verbatim>\<open>SSEStream\<close> object.  \<^verbatim>\<open>thread\<close> is \<^verbatim>\<open>None\<close> when there is no thread object and
  \<^verbatim>\<open>Some alive\<close> otherwise.  \<^verbatim>\<open>calls\<close> records, in order, the invocations of the two
  sinks: \<^verbatim>\<open>on_event(changes)\<close>, and \<^verbatim>\<open>on_error(StreamError(prefix + str(exc)))\<close>.
\<close>

datatype callback = OnEvent "ValueChange list" | OnError string exn

record sse_stream =
  subscription_id :: string
  stop_event :: bool
  thread :: "bool option"
  calls :: "callback list"

definition is_running :: "sse_stream \<Rightarrow> bool" where
  "is_running s = (case thread s of None \<Rightarrow> False | Some alive \<Rightarrow> alive)"

definition start :: "sse_stream \<Rightarrow> sse_stream" where
  "start s = (if is_running s then s else s\<lparr>stop_event := False, thread := Some True\<rparr>)"

definition stop :: "sse_stream \<Rightarrow> sse_stream" where
  "stop s = s\<lparr>stop_event := True, thread := None\<rparr>"

text \<open>
  \<^verbatim>\<open>s.split(sep, 1)\<close> (for the separators the code passes, which are not empty),
  \<^verbatim>\<open>s.split("\n")\<close>, \<^verbatim>\<open>"\n".join(xs)\<close> and \<^verbatim>\<open>s.strip()\<close>.
\<close>

fun split1 :: "string \<Rightarrow> string \<Rightarrow> string list" where
  "split1 sep [] = (if sep = [] then [[], []] else [[]])"
| "split1 sep (c # cs) =
     (if startswith (c # cs) sep then [[], drop (length sep) (c # cs)]
      else (case split1 sep cs of [a, b] \<Rightarrow> [c # a, b] | _ \<Rightarrow> [c # cs]))"

fun split_lines :: "string \<Rightarrow> string list" where
  "split_lines [] = [[]]"
| "split_lines (c # cs) =
     (if c = CHR 0x0A then [] # split_lines cs
      else (case split_lines cs of [] \<Rightarrow> [[c]] | l # ls \<Rightarrow> (c # l) # ls))"

fun join_lines :: "string list \<Rightarrow> string" where
  "join_lines [] = []"
| "join_lines [x] = x"
| "join_lines (x # y # ys) = x @ [CHR 0x0A] @ join_lines (y # ys)"

text \<open>
  The characters \<^verbatim>\<open>str.strip()\<close> removes, among the code points below 256: tab, line
  feed, vertical tab, form feed, carriage return, the four separators 0x1C to 0x1F,
  space, next line (0x85) and no-break space (0xA0).
\<close>

definition isspace :: "char \<Rightarrow> bool" where
  "isspace c = (of_char c \<in> {9, 10, 11, 12, 13, 28, 29, 30, 31, 32, 133, 160 :: nat})"

definition strip :: "string \<Rightarrow> string" where
  "strip s = rev (dropWhile isspace (rev (dropWhile isspace s)))"

text \<open>
  \<^verbatim>\<open>SSEStream._process_event_text\<close>.  \<^verbatim>\<open>data_lines\<close> is the first loop, with the list
  built so far.  \<^verbatim>\<open>stops changes\<close> says whether the stop flag is set when
  \<^verbatim>\<open>on_event(changes)\<close> returns (the callback, or another thread meanwhile, called
  \<^verbatim>\<open>stop()\<close>); the sink itself does not raise: the client's \<^verbatim>\<open>_handle_value_changes\<close>
  catches what the user's callback raises.  A result is the exception that left the
  function, if any, and the object's state then.
\<close>

fun data_lines :: "string list \<Rightarrow> string list \<Rightarrow> string list" where
  "data_lines [] acc = acc"
| "data_lines (line # lines) acc =
     (if startswith line ''data:'' then data_lines lines (acc @ [strip (drop 5 line)])
      else if startswith line ''data: '' then data_lines lines (acc @ [drop 6 line])
      else data_lines lines acc)"

definition data_str :: "string \<Rightarrow> string" where
  "data_str event_text = join_lines (data_lines (split_lines event_text) [])"

definition deliver ::
  "(ValueChange list \<Rightarrow> bool) \<Rightarrow> sse_stream \<Rightarrow> json \<Rightarrow> exn option \<times> sse_stream" where
  "deliver stops s item =
     (case from_stream_event item of
        Inl e \<Rightarrow> (Some e, s)
      | Inr changes \<Rightarrow>
          if changes \<noteq> []
          then (None, s\<lparr>stop_event := stop_event s \<or> stops changes,
                         calls := calls s @ [OnEvent changes]\<rparr>)
          else (None, s))"

fun deliver_all ::
  "(ValueChange list \<Rightarrow> bool) \<Rightarrow> sse_stream \<Rightarrow> json list \<Rightarrow> exn option \<times> sse_stream" where
  "deliver_all stops s [] = (None, s)"
| "deliver_all stops s (item # items) =
     (case deliver stops s item of
        (Some e, s') \<Rightarrow> (Some e, s')
      | (None, s') \<Rightarrow> deliver_all stops s' items)"

definition process_event_text ::
  "(string \<Rightarrow> json option) \<Rightarrow> (ValueChange list \<Rightarrow> bool) \<Rightarrow> sse_stream \<Rightarrow> string
     \<Rightarrow> exn option \<times> sse_stream" where
  "process_event_text loads stops s event_text =
     (if data_lines (split_lines event_text) [] = [] then (None, s)
      else
        (case loads (data_str event_text) of
           None \<Rightarrow> (None, s)
         | Some (JArray parsed) \<Rightarrow> deliver_all stops s parsed
         | Some (JObject parsed) \<Rightarrow> deliver stops s (JObject parsed)
         | Some _ \<Rightarrow> (None, s)))"

text \<open>
  \<^verbatim>\<open>SSEStream._read_events\<close>.  \<^verbatim>\<open>drain\<close> is the inner \<^verbatim>\<open>while\<close> loop on the buffer; it
  returns the buffer left over as well.  \<^verbatim>\<open>read_events\<close> is the \<^verbatim>\<open>for\<close> loop over the
  chunks \<^verbatim>\<open>iter_text()\<close> yields, from the buffer accumulated so far; \<^verbatim>\<open>ending\<close> is the
  exception the iterator raises after its last chunk, if the connection breaks.
\<close>

definition NN :: string where
  "NN = [CHR 0x0A, CHR 0x0A]"

function drain ::
  "(string \<Rightarrow> json option) \<Rightarrow> (ValueChange list \<Rightarrow> bool) \<Rightarrow> sse_stream \<Rightarrow> string
     \<Rightarrow> exn option \<times> sse_stream \<times> string" where
  "drain loads stops s buffer =
     (if contains NN buffer then
        (case split1 NN buffer of
           [event_text, rest] \<Rightarrow>
             (case process_event_text loads stops s event_text of
                (Some e, s') \<Rightarrow> (Some e, s', rest)
              | (None, s') \<Rightarrow> drain loads stops s' rest)
         | _ \<Rightarrow> (Some ValueError, s, buffer))
      else (None, s, buffer))"
  by pat_completeness auto
termination
proof (relation "measure (\<lambda>(loads, stops, s, buffer). length buffer)")
  show "wf (measure (\<lambda>(loads, stops, s, buffer). length buffer))"
    by simp
next
  fix loads :: "string \<Rightarrow> json option" and stops :: "ValueChange list \<Rightarrow> bool"
    and s s' :: sse_stream and buffer event_text rest :: string
    and x21 x22 and x :: "exn option \<times> sse_stream" and x2 :: "exn option"
  assume sp: "split1 NN buffer = event_text # x21" "x21 = rest # x22" "x22 = []"
  have shorter: "split1 NN b = [a, r] \<Longrightarrow> length r < length b" for a r b
  proof (induction b arbitrary: a)
    case Nil
    then show ?case by (simp add: NN_def)
  next
    case (Cons c cs)
    show ?case
    proof (cases "startswith (c # cs) NN")
      case True
      with Cons.prems show ?thesis by (auto simp: NN_def)
    next
      case False
      with Cons.prems obtain a' where "split1 NN cs = [a', r]"
        by (auto split: list.splits)
      from Cons.IH [OF this] show ?thesis by simp
    qed
  qed
  from sp have "split1 NN buffer = [event_text, rest]" by simp
  from shorter [OF this]
  show "((loads, stops, s', rest), (loads, stops, s, buffer))
          \<in> measure (\<lambda>(loads, stops, s, buffer). length buffer)"
    by simp
qed

declare drain.simps [simp del]

fun read_events ::
  "(string \<Rightarrow> json option) \<Rightarrow> (ValueChange list \<Rightarrow> bool) \<Rightarrow> exn option \<Rightarrow> sse_stream
     \<Rightarrow> string \<Rightarrow> string list \<Rightarrow> exn option \<times> sse_stream" where
  "read_events loads stops ending s buffer [] = (ending, s)"
| "read_events loads stops ending s buffer (chunk # chunks) =
     (if stop_event s then (None, s)
      else
        (case drain loads stops s (buffer @ chunk) of
           (Some e, s', buffer') \<Rightarrow> (Some e, s')
         | (None, s', buffer') \<Rightarrow> read_events loads stops ending s' buffer' chunks))"

text \<open>
  \<^verbatim>\<open>SSEStream._run\<close>, from the outcome of \<^verbatim>\<open>stream_get\<close> and the body of the response:
  its chunks and how it ends.
\<close>

definition run ::
  "(string \<Rightarrow> json option) \<Rightarrow> (ValueChange list \<Rightarrow> bool) \<Rightarrow> sse_stream
     \<Rightarrow> exn + response \<Rightarrow> string list \<Rightarrow> exn option \<Rightarrow> sse_stream" where
  "run loads stops s opened chunks ending =
     (case opened of
        Inl exc \<Rightarrow> s\<lparr>calls := calls s @ [OnError ''Failed to open SSE stream: '' exc]\<rparr>
      | Inr resp \<Rightarrow>
          (case read_events loads stops ending s [] chunks of
             (Some exc, s') \<Rightarrow>
               if \<not> stop_event s' then s'\<lparr>calls := calls s' @ [OnError ''SSE stream error: '' exc]\<rparr>
               else s'
           | (None, s') \<Rightarrow> s'))"

section \<open>\<^verbatim>\<open>_subscription.py\<close>\<close>

text \<open>
  A \<^verbatim>\<open>SubscriptionManager\<close>.  \<^verbatim>\<open>SSEStream\<close> objects have identity: \<^verbatim>\<open>objects\<close> holds every
  one constructed so far, a reference is an index into it, and the dict \<^verbatim>\<open>_streams\<close>
  maps a subscription id to a reference.
\<close>

record subscription_manager =
  streams :: "(string \<times> nat) list"
  objects :: "sse_stream list"

definition on_object :: "sse_stream list \<Rightarrow> nat \<Rightarrow> (sse_stream \<Rightarrow> sse_stream) \<Rightarrow> sse_stream list" where
  "on_object objs ref f = (if ref < length objs then objs[ref := f (objs ! ref)] else objs)"

definition add :: "subscription_manager \<Rightarrow> string \<Rightarrow> subscription_manager" where
  "add m sid =
     (if map_of (streams m) sid \<noteq> None then m
      else
        let stream = \<lparr>subscription_id = sid, stop_event = False, thread = None, calls = []\<rparr>;
            ref = length (objects m)
        in m\<lparr>streams := dict_set (streams m) sid ref,
              objects := on_object (objects m @ [stream]) ref start\<rparr>)"



definition is_streaming :: "subscription_manager \<Rightarrow> string \<Rightarrow> bool" where
  "is_streaming m sid =
     (case map_of (streams m) sid of
        None \<Rightarrow> False
      | Some ref \<Rightarrow> ref < length (objects m) \<and> is_running (objects m ! ref))"





section \<open>Example inputs\<close>

text \<open>
  What \<^verbatim>\<open>json.loads\<close> returns on the texts the examples below use; every other text of
  the examples is one it rejects.
\<close>

definition sample_loads :: "string \<Rightarrow> json option" where
  \<open>sample_loads = map_of
     [(''{}'', JObject []),
      (''[{}]'', JArray [JObject []]),
      (''5'', JInt 5),
      (''null'', JNull),
      (''"x"'', JString ''x''),
      (''{"a": {"data": []}}'', JObject [(''a'', JObject [(''data'', JArray [])])]),
      (''{"b": {"data": []}}'', JObject [(''b'', JObject [(''data'', JArray [])])]),
      (''{"detail": "Internal Error"}'', JObject [(''detail'', JString ''Internal Error'')])]\<close>

text \<open>A server that refuses every connection, and one that answers every request with a 500.\<close>

definition refusing :: server where
  "refusing c sent req = ConnectError ''connection refused''"

definition failing :: server where
  \<open>failing c sent req =
     Responded \<lparr>r_status_code = 500, r_content_type = Some ''application/json'',
                r_text = ''{"detail": "Internal Error"}''\<rparr>\<close>

definition closed_transport :: transport where
  "closed_transport =
     \<lparr>base_url = ''http://test-server:8080'', auth = None, timeout = 30, client = None\<rparr>"

definition open_transport :: transport where
  "open_transport =
     closed_transport\<lparr>client :=
       Some \<lparr>c_base_url = ''http://test-server:8080'', c_headers = [], c_timeout = 30\<rparr>\<rparr>"


text \<open>A frame of two data lines with a line of another field between them.\<close>

definition two_line_event :: string where
  "two_line_event = ''data: {\<newline>id: 3\<newline>data:}''"

text \<open>
  The payload \<^verbatim>\<open>{"data": [{"value": 1}], "child-1": {"data": [{"value": 2}]}}\<close>, as
  decoded.
\<close>

definition nested_payload :: "(string \<times> json) list" where
  "nested_payload =
     [(''data'', JArray [JObject [(''value'', JInt 1)]]),
      (''child-1'', JObject [(''data'', JArray [JObject [(''value'', JInt 2)]])])]"

text \<open>
  A sink that never sets the stop flag and one whose callback calls \<^verbatim>\<open>stop()\<close>; a stream
  object whose thread runs; two frames, the records they decode to, a frame that is
  not JSON, and a text that holds the two frames.
\<close>

definition no_stop :: "ValueChange list \<Rightarrow> bool" where
  "no_stop changes = False"


definition idle_stream :: sse_stream where
  "idle_stream =
     \<lparr>subscription_id = ''sub-1'', stop_event = False, thread = Some True, calls = []\<rparr>"

definition frame_a :: string where
  \<open>frame_a = ''data: {"a": {"data": []}}''\<close>

definition frame_b :: string where
  \<open>frame_b = ''data: {"b": {"data": []}}''\<close>

definition change_a :: ValueChange where
  "change_a = \<lparr>vc_element_id = ''a'', vc_data = [], vc_children = []\<rparr>"

definition change_b :: ValueChange where
  "change_b = \<lparr>vc_element_id = ''b'', vc_data = [], vc_children = []\<rparr>"


definition two_frames :: string where
  "two_frames = frame_a @ NN @ frame_b @ NN"

definition three_chunks :: "string list" where
  \<open>three_chunks =
     [''data: {"a": {"data": []}}\<newline>'', ''\<newline>data: {'', ''"b": {"data": []}}\<newline>\<newline>'']\<close>

section \<open>Status codes and error kinds\<close>




section \<open>Requests on a closed transport\<close>

text \<open>
  C9, as the code has it: every request issued on a transport that is not open
  (\<^verbatim>\<open>get\<close>, \<^verbatim>\<open>post\<close>, \<^verbatim>\<open>put\<close>, \<^verbatim>\<open>delete\<close> and \<^verbatim>\<open>stream_get\<close>) fails with an error of the class
  \<^verbatim>\<open>ConnectionError\<close>, the same class a refused connection of an open transport is mapped
  to; the error has the message "Transport is not connected. Call open() first." and no
  status code, and nothing is sent.
\<close>

theorem closed_transport_raises_ConnectionError:
  assumes "\<not> is_open t"
  defines "e \<equiv> I3X \<lparr>kind = ConnectionError,
      message = Text ''Transport is not connected. Call open() first.'', status_code = None\<rparr>"
  shows "get loads srv t sent p ps = (Inl e, sent) \<and>
         post loads srv t sent p j = (Inl e, sent) \<and>
         put loads srv t sent p j = (Inl e, sent) \<and>
         delete loads srv t sent p = (Inl e, sent) \<and>
         stream_get loads srv t sent p = (Inl e, sent)"
proof -
  from assms(1) have "ensure_open t = Inl e"
    by (simp add: ensure_open_def is_open_def e_def)
  then show ?thesis
    by (simp add: get_def post_def put_def delete_def send_def stream_get_def)
qed

theorem closed_transport_raises_ConnectionError_witness:
  "\<not> is_open closed_transport \<and>
   get sample_loads failing closed_transport [] ''/namespaces'' JNull =
     (Inl (I3X \<lparr>kind = ConnectionError,
        message = Text ''Transport is not connected. Call open() first.'',
        status_code = None\<rparr>), [])"
proof -
  have closed: "\<not> is_open closed_transport"
    by (simp add: is_open_def closed_transport_def)
  from closed_transport_raises_ConnectionError [OF closed] closed
  show ?thesis by simp
qed

text \<open>
  The claim as written fails: the kind raised on a closed transport is not distinct from
  the kind of a network-level failure.  A \<^verbatim>\<open>get\<close> on a closed transport and a \<^verbatim>\<open>get\<close> whose
  connection the server refuses on an open one raise the same class.
\<close>

theorem not_connected_kind_counterexample:
  "get sample_loads refusing closed_transport [] ''/namespaces'' JNull =
     (Inl (I3X \<lparr>kind = ConnectionError,
        message = Text ''Transport is not connected. Call open() first.'',
        status_code = None\<rparr>), []) \<and>
   get sample_loads refusing open_transport [] ''/namespaces'' JNull =
     (Inl (I3X \<lparr>kind = ConnectionError, message = Text ''connection refused'',
        status_code = None\<rparr>),
      [\<lparr>req_method = ''GET'', req_path = ''/namespaces'', req_params = JNull, req_body = JNull\<rparr>])"
  by (simp add: get_def send_def ensure_open_def transport_request_def refusing_def
      closed_transport_def open_transport_def)

section \<open>Opening a transport\<close>

text \<open>
  C4: when \<^verbatim>\<open>open()\<close> is called on a closed transport and the probe \<^verbatim>\<open>GET /namespaces\<close>
  raises, \<^verbatim>\<open>open()\<close> raises the probe's own error and leaves the transport closed, exactly
  as it was before the call; when the probe succeeds the transport is open.  A probe
  answered with HTTP 500 raises \<^verbatim>\<open>ServerError\<close> with status 500 and leaves the transport
  closed.  Called on an open transport, \<^verbatim>\<open>open()\<close> returns at once: nothing is sent and
  the transport is unchanged.
\<close>

theorem open_rolls_back_on_probe_failure:
  fixes t :: transport
  defines "c \<equiv> \<lparr>c_base_url = base_url t, c_headers = auth_headers (auth t),
                  c_timeout = timeout t\<rparr>"
  defines "probe \<equiv> \<lparr>req_method = ''GET'', req_path = ''/namespaces'', req_params = JNull, req_body = JNull\<rparr>"
  shows "(is_open t \<longrightarrow> transport_open loads srv t sent = (Inr (), t, sent)) \<and>
    (\<not> is_open t \<longrightarrow>
       (\<forall>e sent'. transport_request loads srv c sent probe = (Inl e, sent') \<longrightarrow>
          transport_open loads srv t sent = (Inl e, t, sent') \<and> \<not> is_open t) \<and>
       (\<forall>v sent'. transport_request loads srv c sent probe = (Inr v, sent') \<longrightarrow>
          transport_open loads srv t sent = (Inr (), t\<lparr>client := Some c\<rparr>, sent') \<and>
          is_open (t\<lparr>client := Some c\<rparr>)) \<and>
       (\<forall>r. srv c sent probe = Responded r \<and> r_status_code r = 500 \<longrightarrow>
          transport_open loads srv t sent =
            (Inl (I3X \<lparr>kind = ServerError, message = error_message loads r,
               status_code = Some 500\<rparr>), t, sent @ [probe])))"
proof (cases "is_open t")
  case True
  then show ?thesis
    by (auto simp: transport_open_def is_open_def)
next
  case closed: False
  let ?t1 = "t\<lparr>client := Some c\<rparr>"
  have probe_eq: "get loads srv ?t1 sent ''/namespaces'' JNull =
      transport_request loads srv c sent probe"
    by (simp add: get_def send_def ensure_open_def probe_def)
  have rollback: "close ?t1 = t"
    using closed by (simp add: close_def is_open_def)
  have unfolded: "transport_open loads srv t sent =
      (case transport_request loads srv c sent probe of
         (Inl e, sent') \<Rightarrow> (Inl e, t, sent')
       | (Inr v, sent') \<Rightarrow> (Inr (), ?t1, sent'))"
  proof -
    from closed have "client t = None" by (simp add: is_open_def)
    then have "transport_open loads srv t sent =
        (case get loads srv ?t1 sent ''/namespaces'' JNull of
           (Inl e, sent') \<Rightarrow> (Inl e, close ?t1, sent')
         | (Inr v, sent') \<Rightarrow> (Inr (), ?t1, sent'))"
      unfolding transport_open_def c_def Let_def by simp
    with rollback probe_eq show ?thesis
      by (simp split: prod.splits sum.splits)
  qed
  have failure: "transport_open loads srv t sent = (Inl e, t, sent') \<and> \<not> is_open t"
    if "transport_request loads srv c sent probe = (Inl e, sent')" for e sent'
    using unfolded that closed by simp
  have success: "transport_open loads srv t sent = (Inr (), ?t1, sent') \<and> is_open ?t1"
    if "transport_request loads srv c sent probe = (Inr v, sent')" for v sent'
    using unfolded that by (simp add: is_open_def)
  have http500: "transport_open loads srv t sent =
      (Inl (I3X \<lparr>kind = ServerError, message = error_message loads r,
         status_code = Some 500\<rparr>), t, sent @ [probe])"
    if reply: "srv c sent probe = Responded r" and code: "r_status_code r = 500" for r
  proof -
    from code have "check_status loads r =
        Inl (I3X \<lparr>kind = ServerError, message = error_message loads r,
          status_code = Some 500\<rparr>)"
      by (simp add: check_status_def STATUS_MAP_def)
    with reply have "transport_request loads srv c sent probe =
        (Inl (I3X \<lparr>kind = ServerError, message = error_message loads r,
          status_code = Some 500\<rparr>), sent @ [probe])"
      by (simp add: transport_request_def)
    with failure show ?thesis by simp
  qed
  from closed failure success http500 show ?thesis by blast
qed

theorem open_rolls_back_on_probe_failure_witness:
  \<open>\<not> is_open closed_transport \<and> is_open open_transport \<and>
   transport_open sample_loads failing open_transport [] = (Inr (), open_transport, []) \<and>
   transport_open sample_loads failing closed_transport [] =
     (Inl (I3X \<lparr>kind = ServerError, message = Text ''Internal Error'',
        status_code = Some 500\<rparr>),
      closed_transport,
      [\<lparr>req_method = ''GET'', req_path = ''/namespaces'', req_params = JNull, req_body = JNull\<rparr>])\<close>
proof -
  have closed: "\<not> is_open closed_transport"
    by (simp add: is_open_def closed_transport_def)
  have opened: "is_open open_transport"
    by (simp add: is_open_def open_transport_def)
  have msg: \<open>error_message sample_loads
      \<lparr>r_status_code = 500, r_content_type = Some ''application/json'',
       r_text = ''{"detail": "Internal Error"}''\<rparr> = Text ''Internal Error''\<close>
    by (simp add: error_message_def sample_loads_def dict_get_def)
  from closed open_rolls_back_on_probe_failure
    [where t = closed_transport and srv = failing and loads = sample_loads and sent = "[]"]
  have "transport_open sample_loads failing closed_transport [] =
     (Inl (I3X \<lparr>kind = ServerError, message = Text ''Internal Error'',
        status_code = Some 500\<rparr>),
      closed_transport,
      [\<lparr>req_method = ''GET'', req_path = ''/namespaces'', req_params = JNull, req_body = JNull\<rparr>])"
    by (simp add: failing_def msg)
  moreover from opened open_rolls_back_on_probe_failure
    [where t = open_transport and srv = failing and loads = sample_loads and sent = "[]"]
  have "transport_open sample_loads failing open_transport [] = (Inr (), open_transport, [])"
    by simp
  ultimately show ?thesis using closed opened by simp
qed

section \<open>Helper lemmas on texts\<close>

lemma startswith_iff: "startswith s p \<longleftrightarrow> (\<exists>r. s = p @ r)"
proof
  assume "startswith s p"
  then have "s = p @ drop (length p) s"
    by (metis append_take_drop_id startswith_def)
  then show "\<exists>r. s = p @ r" ..
next
  assume "\<exists>r. s = p @ r"
  then show "startswith s p" by (auto simp: startswith_def)
qed

lemma startswith_data_space: "startswith l ''data: '' \<Longrightarrow> startswith l ''data:''"
  by (auto simp: startswith_iff)

lemma data_lines_eq:
  "data_lines ls acc =
     acc @ map (\<lambda>l. strip (drop 5 l)) (filter (\<lambda>l. startswith l ''data:'') ls)"
  by (induction ls arbitrary: acc) (auto dest: startswith_data_space)

lemma strip_space: "strip (CHR '' '' # u) = strip u"
  by (simp add: strip_def isspace_def)

lemma data_space_payload:
  assumes "startswith l ''data: ''"
  shows "strip (drop 5 l) = strip (drop 6 l)"
proof -
  from assms obtain r where "l = ''data: '' @ r"
    by (auto simp: startswith_iff)
  then show ?thesis by (simp add: strip_space)
qed

section \<open>The data lines of a frame\<close>

text \<open>
  C8, as the code has it: in every frame block the lines that contribute to the
  reconstructed document are exactly the lines that start with \<^verbatim>\<open>data:\<close>, one payload
  each, in line order, and the document is the payloads joined by newline.  A line whose
  marker is not followed by a space contributes the text after the marker with all
  leading and trailing whitespace removed.  A line whose marker is followed by a space,
  and whose text after that space neither starts nor ends with whitespace, contributes
  exactly that text.
\<close>

theorem data_str_payloads:
  fixes event_text :: string
  defines "marked \<equiv> filter (\<lambda>l. startswith l ''data:'') (split_lines event_text)"
  defines "payloads \<equiv> data_lines (split_lines event_text) []"
  shows "data_str event_text = join_lines payloads \<and>
    list_all2 (\<lambda>line payload.
        (\<not> startswith line ''data: '' \<longrightarrow> payload = strip (drop 5 line)) \<and>
        (startswith line ''data: '' \<and> strip (drop 6 line) = drop 6 line
           \<longrightarrow> payload = drop 6 line))
      marked payloads"
proof
  show "data_str event_text = join_lines payloads"
    by (simp add: data_str_def payloads_def)
next
  have "payloads = map (\<lambda>l. strip (drop 5 l)) marked"
    by (simp add: payloads_def marked_def data_lines_eq)
  moreover have "list_all2 (\<lambda>line payload.
        (\<not> startswith line ''data: '' \<longrightarrow> payload = strip (drop 5 line)) \<and>
        (startswith line ''data: '' \<and> strip (drop 6 line) = drop 6 line
           \<longrightarrow> payload = drop 6 line))
      marked (map (\<lambda>l. strip (drop 5 l)) marked)"
    by (simp add: list_all2_map2 list_all2_same data_space_payload)
  ultimately show "list_all2 (\<lambda>line payload.
        (\<not> startswith line ''data: '' \<longrightarrow> payload = strip (drop 5 line)) \<and>
        (startswith line ''data: '' \<and> strip (drop 6 line) = drop 6 line
           \<longrightarrow> payload = drop 6 line))
      marked payloads"
    by simp
qed

theorem data_str_payloads_witness:
  "filter (\<lambda>l. startswith l ''data:'') (split_lines two_line_event) = [''data: {'', ''data:}''] \<and>
   data_lines (split_lines two_line_event) [] = [''{'', ''}''] \<and>
   data_str two_line_event = ''{\<newline>}''"
proof -
  have lines: "split_lines two_line_event = [''data: {'', ''id: 3'', ''data:}'']"
    by (simp add: two_line_event_def)
  have marked: "filter (\<lambda>l. startswith l ''data:'') (split_lines two_line_event) =
      [''data: {'', ''data:}'']"
    by (simp add: lines startswith_def)
  have stripped: "strip ''{'' = ''{''" "strip ''}'' = ''}''"
    by (simp_all add: strip_def isspace_def)
  from data_str_payloads [of two_line_event]
  have "data_str two_line_event = join_lines (data_lines (split_lines two_line_event) [])"
    and "list_all2 (\<lambda>line payload.
        (\<not> startswith line ''data: '' \<longrightarrow> payload = strip (drop 5 line)) \<and>
        (startswith line ''data: '' \<and> strip (drop 6 line) = drop 6 line
           \<longrightarrow> payload = drop 6 line))
      [''data: {'', ''data:}''] (data_lines (split_lines two_line_event) [])"
    by (simp_all add: marked)
  then have "data_lines (split_lines two_line_event) [] = [''{'', ''}'']"
    and "data_str two_line_event = join_lines (data_lines (split_lines two_line_event) [])"
    by (auto simp: list_all2_Cons1 startswith_def stripped)
  with marked show ?thesis by simp
qed

text \<open>
  The claim as written fails on a line whose marker is not followed by a space and whose
  text ends with one: the claim keeps the trailing space, \<^verbatim>\<open>strip()\<close> removes it.
\<close>

theorem data_str_strips_counterexample:
  "data_str ''data:5 '' = ''5'' \<and> data_str ''data:5 '' \<noteq> ''5 ''"
  by (simp add: data_str_def startswith_def strip_def isspace_def)

section \<open>Helper lemmas on snapshots\<close>

lemma dict_set_fresh: "key \<notin> fst ` set d \<Longrightarrow> dict_set d key v = d @ [(key, v)]"
  by (induction d) auto

lemma map_exn_dicts: "list_all is_dict vs \<Longrightarrow> \<exists>vqts. map_exn VQT_from_dict vs = Inr vqts"
proof (induction vs)
  case Nil
  then show ?case by simp
next
  case (Cons v vs)
  then obtain d where "v = JObject d" by (cases v) auto
  with Cons show ?case by auto
qed

lemma shaped_data:
  assumes "case map_of value_data ''data'' of None \<Rightarrow> True
       | Some (JArray vs) \<Rightarrow> list_all is_dict vs | Some _ \<Rightarrow> False"
  shows "\<exists>vs. py_iter (dict_get value_data ''data'' (JArray [])) = Inr vs \<and> list_all is_dict vs"
  using assms by (auto simp: dict_get_def split: option.splits json.splits)

lemma shaped_parses:
  "snapshot_shaped j \<Longrightarrow> \<exists>r. from_response element_id j = Inr r"
  "(\<forall>(k, v) \<in> set items. k \<noteq> ''data'' \<longrightarrow> snapshot_shaped v) \<Longrightarrow>
     \<exists>ch. from_response_items items children = Inr ch"
proof (induction element_id j and items children rule: from_response_from_response_items.induct)
  case (1 element_id value_data)
  from "1.prems" obtain vs where vs: "py_iter (dict_get value_data ''data'' (JArray [])) = Inr vs"
    "list_all is_dict vs"
    using shaped_data by auto
  then obtain vqts where vqts: "map_exn VQT_from_dict vs = Inr vqts"
    using map_exn_dicts by blast
  from "1.prems" have "\<forall>(k, v) \<in> set value_data. k \<noteq> ''data'' \<longrightarrow> snapshot_shaped v"
    by simp
  from "1.IH" [OF vs(1) vqts this] obtain ch where "from_response_items value_data [] = Inr ch" ..
  with vs vqts show ?case by simp
next
  case (9 key child_data items children)
  show ?case
  proof (cases "key = ''data''")
    case True
    with 9 show ?thesis by simp
  next
    case False
    with "9.prems" have "snapshot_shaped child_data" by simp
    from "9.IH"(2) [OF False this] obtain c where c: "from_response key child_data = Inr c" ..
    from "9.prems" have "\<forall>(k, v) \<in> set items. k \<noteq> ''data'' \<longrightarrow> snapshot_shaped v" by simp
    from "9.IH"(3) [OF False c this] c False show ?thesis by simp
  qed
qed simp_all

lemma items_children:
  assumes "from_response_items items acc = Inr ch"
    and "distinct (map fst items)"
    and "fst ` set acc \<inter> fst ` set items = {}"
  shows "\<exists>new. ch = acc @ new \<and>
    list_all2 (\<lambda>(k, v) (k', c). k' = k \<and> from_response k v = Inr c)
      (filter (\<lambda>(k, v). k \<noteq> ''data'') items) new"
  using assms
proof (induction items arbitrary: acc)
  case Nil
  then show ?case by simp
next
  case (Cons kv items)
  obtain key child_data where kv: "kv = (key, child_data)" by (cases kv)
  show ?case
  proof (cases "key = ''data''")
    case True
    with Cons.prems kv have "from_response_items items acc = Inr ch"
      "distinct (map fst items)" "fst ` set acc \<inter> fst ` set items = {}"
      by auto
    from Cons.IH [OF this] True kv show ?thesis by simp
  next
    case False
    with Cons.prems(1) kv obtain c where c: "from_response key child_data = Inr c"
      and rest: "from_response_items items (dict_set acc key c) = Inr ch"
      by (auto split: sum.splits)
    from Cons.prems(3) kv have fresh: "key \<notin> fst ` set acc" by auto
    then have upd: "dict_set acc key c = acc @ [(key, c)]" by (rule dict_set_fresh)
    from Cons.prems kv have "distinct (map fst items)"
      "fst ` set (acc @ [(key, c)]) \<inter> fst ` set items = {}"
      by auto
    from Cons.IH [OF rest [unfolded upd] this]
    obtain new where "ch = acc @ [(key, c)] @ new"
      "list_all2 (\<lambda>(k, v) (k', c). k' = k \<and> from_response k v = Inr c)
        (filter (\<lambda>(k, v). k \<noteq> ''data'') items) new"
      by auto
    with False kv c show ?thesis by simp
  qed
qed

lemma non_data_fold:
  assumes "distinct (map fst items)" and "fst ` set acc \<inter> fst ` set items = {}"
  shows "fold (\<lambda>(k, v) d. if k \<noteq> ''data'' then dict_set d k v else d) items acc =
    acc @ filter (\<lambda>(k, v). k \<noteq> ''data'') items"
  using assms
proof (induction items arbitrary: acc)
  case Nil
  then show ?case by simp
next
  case (Cons kv items)
  obtain k v where kv: "kv = (k, v)" by (cases kv)
  from Cons.prems kv have fresh: "k \<notin> fst ` set acc" by auto
  from Cons.prems kv have d: "distinct (map fst items)" by simp
  show ?case
  proof (cases "k = ''data''")
    case True
    from Cons.prems kv have "fst ` set acc \<inter> fst ` set items = {}" by auto
    from Cons.IH [OF d this] True kv show ?thesis by simp
  next
    case False
    from Cons.prems kv have "fst ` set (acc @ [(k, v)]) \<inter> fst ` set items = {}" by auto
    from Cons.IH [OF d this] False kv dict_set_fresh [OF fresh] show ?thesis by simp
  qed
qed

lemma children_keys:
  assumes "list_all2 (\<lambda>(k, v) (k', c). k' = k \<and> P k v c) (filter (\<lambda>(k, v). k \<noteq> ''data'') xs) ys"
  shows "''data'' \<notin> fst ` set ys"
proof -
  have same_keys: "map fst bs = map fst as"
    if "list_all2 (\<lambda>(k, v) (k', c). k' = k \<and> P k v c) as bs" for as bs
    using that by (induction rule: list_all2_induct) auto
  from same_keys [OF assms]
  have "fst ` set ys = fst ` set (filter (\<lambda>(k, v). k \<noteq> ''data'') xs)"
    by (metis set_map)
  then show ?thesis by auto
qed

section \<open>The children of a snapshot\<close>

text \<open>
  C7, as the code has it.  \<^verbatim>\<open>LastKnownValue.from_response\<close> on a payload dict of the
  snapshot shape yields a record; whenever it yields a record, the record has the given
  element id, its children exclude the key \<^verbatim>\<open>data\<close>, and its children are, in order, the
  entries of the payload other than \<^verbatim>\<open>data\<close>, each parsed by \<^verbatim>\<open>from_response\<close> again under
  its own key.  The records of \<^verbatim>\<open>ValueChange.from_stream_event\<close> are different: their
  children exclude the key \<^verbatim>\<open>data\<close> as well, but every other entry is kept as the raw
  payload it was, not parsed.
\<close>

theorem snapshot_children:
  assumes "distinct (map fst value_data)"
  shows "(snapshot_shaped (JObject value_data) \<longrightarrow>
            (\<exists>r. from_response element_id (JObject value_data) = Inr r)) \<and>
         (\<forall>r. from_response element_id (JObject value_data) = Inr r \<longrightarrow>
            lkv_element_id r = element_id \<and> ''data'' \<notin> fst ` set (lkv_children r) \<and>
            list_all2 (\<lambda>(k, v) (k', c). k' = k \<and> from_response k v = Inr c)
              (filter (\<lambda>(k, v). k \<noteq> ''data'') value_data) (lkv_children r)) \<and>
         (\<forall>c. value_change (element_id, JObject value_data) = Inr c \<longrightarrow>
            vc_children c = filter (\<lambda>(k, v). k \<noteq> ''data'') value_data)"
proof (intro conjI allI impI)
  assume "snapshot_shaped (JObject value_data)"
  then show "\<exists>r. from_response element_id (JObject value_data) = Inr r"
    by (rule shaped_parses(1))
next
  fix r
  assume parsed: "from_response element_id (JObject value_data) = Inr r"
  then obtain vqts ch where r: "r = LastKnownValue element_id vqts ch"
    and ch: "from_response_items value_data [] = Inr ch"
    by (auto split: sum.splits)
  from r show "lkv_element_id r = element_id" by simp
  from items_children [OF ch assms] r
  show children: "list_all2 (\<lambda>(k, v) (k', c). k' = k \<and> from_response k v = Inr c)
      (filter (\<lambda>(k, v). k \<noteq> ''data'') value_data) (lkv_children r)"
    by simp
  then show "''data'' \<notin> fst ` set (lkv_children r)"
    by (rule children_keys)
next
  fix c
  assume "value_change (element_id, JObject value_data) = Inr c"
  then have "vc_children c = non_data value_data"
    by (auto split: sum.splits)
  with non_data_fold [OF assms, of "[]"]
  show "vc_children c = filter (\<lambda>(k, v). k \<noteq> ''data'') value_data"
    by (simp add: non_data_def)
qed

theorem snapshot_children_witness:
  "distinct (map fst nested_payload) \<and> snapshot_shaped (JObject nested_payload) \<and>
   from_response ''parent'' (JObject nested_payload) =
     Inr (LastKnownValue ''parent''
       [\<lparr>vqt_value = JInt 1, vqt_quality = JString [], vqt_timestamp = JString []\<rparr>]
       [(''child-1'', LastKnownValue ''child-1''
          [\<lparr>vqt_value = JInt 2, vqt_quality = JString [], vqt_timestamp = JString []\<rparr>] [])]) \<and>
   list_all2 (\<lambda>(k, v) (k', c). k' = k \<and> from_response k v = Inr c)
     [(''child-1'', JObject [(''data'', JArray [JObject [(''value'', JInt 2)]])])]
     [(''child-1'', LastKnownValue ''child-1''
        [\<lparr>vqt_value = JInt 2, vqt_quality = JString [], vqt_timestamp = JString []\<rparr>] [])]"
proof -
  have keys: "distinct (map fst nested_payload)"
    by (simp add: nested_payload_def)
  have shaped: "snapshot_shaped (JObject nested_payload)"
    by (simp add: nested_payload_def)
  have parsed: "from_response ''parent'' (JObject nested_payload) =
     Inr (LastKnownValue ''parent''
       [\<lparr>vqt_value = JInt 1, vqt_quality = JString [], vqt_timestamp = JString []\<rparr>]
       [(''child-1'', LastKnownValue ''child-1''
          [\<lparr>vqt_value = JInt 2, vqt_quality = JString [], vqt_timestamp = JString []\<rparr>] [])])"
    by (simp add: nested_payload_def dict_get_def)
  have others: "filter (\<lambda>(k, v). k \<noteq> ''data'') nested_payload =
      [(''child-1'', JObject [(''data'', JArray [JObject [(''value'', JInt 2)]])])]"
    by (simp add: nested_payload_def)
  from snapshot_children [OF keys, of "''parent''"] parsed
  have "list_all2 (\<lambda>(k, v) (k', c). k' = k \<and> from_response k v = Inr c)
      (filter (\<lambda>(k, v). k \<noteq> ''data'') nested_payload)
      [(''child-1'', LastKnownValue ''child-1''
        [\<lparr>vqt_value = JInt 2, vqt_quality = JString [], vqt_timestamp = JString []\<rparr>] [])]"
    by simp
  with keys shaped parsed show ?thesis
    unfolding others by simp
qed

text \<open>
  The claim as written fails for the snapshots inside stream records: in the record that
  \<^verbatim>\<open>from_stream_event\<close> builds for \<^verbatim>\<open>{"e": {"data": [{"value": 1}], "child-1": {"data":
  [{"value": 2}]}}}\<close>, the entry under \<^verbatim>\<open>child-1\<close> is the raw dict, its own \<^verbatim>\<open>data\<close> key
  included, where \<^verbatim>\<open>from_response\<close> has a parsed record.
\<close>

theorem stream_children_raw_counterexample:
  "from_stream_event (JObject [(''e'', JObject nested_payload)]) =
     Inr [\<lparr>vc_element_id = ''e'',
           vc_data = [\<lparr>vqt_value = JInt 1, vqt_quality = JString [], vqt_timestamp = JString []\<rparr>],
           vc_children = [(''child-1'', JObject [(''data'', JArray [JObject [(''value'', JInt 2)]])])]\<rparr>]"
  by (simp add: nested_payload_def dict_get_def non_data_def)

section \<open>Helper lemmas on the decode loop\<close>

lemma startswith_NN:
  "startswith [] NN = False" "startswith [c] NN = False"
  "startswith (c # d # ds) NN \<longleftrightarrow> c = CHR 0x0A \<and> d = CHR 0x0A"
  by (auto simp: startswith_def NN_def)

lemma split1_NN:
  "split1 NN [] = [[]]" "split1 NN [c] = [[c]]"
  "split1 NN (c # d # ds) =
     (if c = CHR 0x0A \<and> d = CHR 0x0A then [[], ds]
      else (case split1 NN (d # ds) of [a, b] \<Rightarrow> [c # a, b] | _ \<Rightarrow> [c # d # ds]))"
  by (auto simp: startswith_NN) (auto simp: NN_def)

lemma contains_NN:
  "contains NN [] = False" "contains NN [c] = False"
  "contains NN (c # d # ds) \<longleftrightarrow> (c = CHR 0x0A \<and> d = CHR 0x0A) \<or> contains NN (d # ds)"
  by (auto simp: startswith_NN) (auto simp: NN_def)


lemma split1_found: "contains NN x \<Longrightarrow> \<exists>ev rest. split1 NN x = [ev, rest]"
  by (induction x rule: induct_list012)
    (auto simp: split1_NN contains_NN simp del: split1.simps contains.simps)

lemma split1_contains: "split1 NN x = [ev, rest] \<Longrightarrow> contains NN x"
  by (induction x arbitrary: ev rule: induct_list012)
    (auto simp: split1_NN contains_NN simp del: split1.simps contains.simps split: list.splits if_splits)

lemma split1_append: "split1 NN x = [ev, rest] \<Longrightarrow> split1 NN (x @ y) = [ev, rest @ y]"
  by (induction x arbitrary: ev rule: induct_list012)
    (auto simp: split1_NN simp del: split1.simps split: list.splits if_splits)

lemma contains_append: "contains NN x \<Longrightarrow> contains NN (x @ y)"
proof -
  assume "contains NN x"
  then obtain ev rest where "split1 NN x = [ev, rest]"
    using split1_found by blast
  then have "split1 NN (x @ y) = [ev, rest @ y]"
    by (rule split1_append)
  then show ?thesis by (rule split1_contains)
qed


lemma drain_none: "\<not> contains NN buffer \<Longrightarrow> drain loads stops s buffer = (None, s, buffer)"
  by (subst drain.simps) simp

lemma drain_frame:
  assumes "split1 NN buffer = [event_text, rest]"
  shows "drain loads stops s buffer =
    (case process_event_text loads stops s event_text of
       (Some e, s') \<Rightarrow> (Some e, s', rest)
     | (None, s') \<Rightarrow> drain loads stops s' rest)"
  using assms split1_contains [OF assms] by (subst drain.simps) simp

lemma drain_append:
  "drain loads stops s (x @ y) =
    (case drain loads stops s x of
       (Some e, s', r) \<Rightarrow> (Some e, s', r @ y)
     | (None, s', r) \<Rightarrow> drain loads stops s' (r @ y))"
proof (induction loads stops s x rule: drain.induct)
  case (1 loads stops s buffer)
  show ?case
  proof (cases "contains NN buffer")
    case False
    then show ?thesis by (simp add: drain_none)
  next
    case True
    then obtain event_text rest where sp: "split1 NN buffer = [event_text, rest]"
      using split1_found by blast
    obtain res s' where pr: "process_event_text loads stops s event_text = (res, s')"
      by (cases "process_event_text loads stops s event_text")
    show ?thesis
    proof (cases res)
      case None
      from "1.IH" [OF True sp refl refl pr [symmetric] None]
      have "drain loads stops s' (rest @ y) =
        (case drain loads stops s' rest of
           (Some e, s'', r) \<Rightarrow> (Some e, s'', r @ y)
         | (None, s'', r) \<Rightarrow> drain loads stops s'' (r @ y))" .
      with None pr show ?thesis
        by (simp add: drain_frame [OF sp] drain_frame [OF split1_append [OF sp]])
    next
      case (Some e)
      with pr show ?thesis
        by (simp add: drain_frame [OF sp] drain_frame [OF split1_append [OF sp]])
    qed
  qed
qed

lemma drain_leftover:
  "drain loads stops s x = (None, s', r) \<Longrightarrow> \<not> contains NN r"
proof (induction loads stops s x rule: drain.induct)
  case (1 loads stops s buffer)
  show ?case
  proof (cases "contains NN buffer")
    case False
    with "1.prems" show ?thesis by (simp add: drain_none)
  next
    case True
    then obtain event_text rest where sp: "split1 NN buffer = [event_text, rest]"
      using split1_found by blast
    obtain res s1 where pr: "process_event_text loads stops s event_text = (res, s1)"
      by (cases "process_event_text loads stops s event_text")
    from "1.prems" pr have res: "res = None" and "drain loads stops s1 rest = (None, s', r)"
      by (auto simp: drain_frame [OF sp] split: option.splits)
    with "1.IH" [OF True sp refl refl pr [symmetric]] show ?thesis by simp
  qed
qed


lemma deliver_quiet:
  "deliver (\<lambda>changes. False) s item = (res, s') \<Longrightarrow> stop_event s' = stop_event s"
  by (auto simp: deliver_def split: sum.splits if_splits)

lemma deliver_all_quiet:
  "deliver_all (\<lambda>changes. False) s items = (res, s') \<Longrightarrow> stop_event s' = stop_event s"
proof (induction items arbitrary: s)
  case Nil
  then show ?case by simp
next
  case (Cons item items)
  obtain r1 s1 where d: "deliver (\<lambda>changes. False) s item = (r1, s1)"
    by (cases "deliver (\<lambda>changes. False) s item")
  from deliver_quiet [OF d] have "stop_event s1 = stop_event s" .
  with Cons d show ?case
    by (cases r1) auto
qed

lemma process_quiet:
  "process_event_text loads (\<lambda>changes. False) s event_text = (res, s') \<Longrightarrow>
     stop_event s' = stop_event s"
  by (auto simp: process_event_text_def split: if_splits option.splits json.splits
      dest: deliver_quiet deliver_all_quiet)

lemma drain_quiet:
  "drain loads stops s x = (res, s', r) \<Longrightarrow> stops = (\<lambda>changes. False) \<Longrightarrow>
     stop_event s' = stop_event s"
proof (induction loads stops s x rule: drain.induct)
  case (1 loads stops s buffer)
  show ?case
  proof (cases "contains NN buffer")
    case False
    with "1.prems" show ?thesis by (simp add: drain_none)
  next
    case True
    then obtain event_text rest where sp: "split1 NN buffer = [event_text, rest]"
      using split1_found by blast
    obtain r1 s1 where pr: "process_event_text loads stops s event_text = (r1, s1)"
      by (cases "process_event_text loads stops s event_text")
    with "1.prems"(2) have same: "stop_event s1 = stop_event s"
      by (auto dest: process_quiet)
    show ?thesis
    proof (cases r1)
      case None
      with "1.prems" pr have "drain loads stops s1 rest = (res, s', r)"
        by (simp add: drain_frame [OF sp])
      from "1.IH" [OF True sp refl refl pr [symmetric] None this "1.prems"(2)] same
      show ?thesis by simp
    next
      case (Some e)
      with "1.prems" pr same show ?thesis
        by (auto simp: drain_frame [OF sp])
    qed
  qed
qed

lemma read_events_whole:
  assumes quiet: "stops = (\<lambda>changes. False)"
  shows "\<not> stop_event s \<Longrightarrow> \<not> contains NN buffer \<Longrightarrow>
    read_events loads stops ending s buffer chunks =
    read_events loads stops ending s buffer [concat chunks]"
proof (induction chunks arbitrary: s buffer)
  case Nil
  then show ?case by (simp add: drain_none)
next
  case (Cons chunk chunks)
  obtain res s1 b1 where d: "drain loads stops s (buffer @ chunk) = (res, s1, b1)"
    by (cases "drain loads stops s (buffer @ chunk)") auto
  have whole: "drain loads stops s (buffer @ chunk @ concat chunks) =
      (case res of Some e \<Rightarrow> (Some e, s1, b1 @ concat chunks)
       | None \<Rightarrow> drain loads stops s1 (b1 @ concat chunks))"
    using drain_append [of loads stops s "buffer @ chunk" "concat chunks"] d
    by (simp split: option.splits)
  show ?case
  proof (cases res)
    case (Some e)
    with Cons.prems d whole show ?thesis by simp
  next
    case None
    from drain_quiet [OF d quiet] Cons.prems have running: "\<not> stop_event s1" by simp
    from d None have drained: "\<not> contains NN b1" by (auto dest: drain_leftover)
    from Cons.IH [OF running drained]
    have "read_events loads stops ending s1 b1 chunks =
        read_events loads stops ending s1 b1 [concat chunks]" .
    with Cons.prems d whole None running show ?thesis by simp
  qed
qed





lemma silent_frame_drain:
  assumes "process_event_text loads stops s event_text = (None, s)"
    and "split1 NN buffer = [event_text, rest]"
  shows "drain loads stops s buffer = drain loads stops s rest"
  using assms by (simp add: drain_frame)

lemma silent_frame_read:
  assumes "process_event_text loads stops s event_text = (None, s)"
    and "split1 NN (buffer @ chunk) = [event_text, rest]"
    and "\<not> stop_event s"
  shows "read_events loads stops ending s buffer (chunk # chunks) =
    read_events loads stops ending s rest ([] # chunks)"
  using assms(3) silent_frame_drain [OF assms(1,2)] by simp

lemma silent_frame_run:
  assumes "process_event_text loads stops s event_text = (None, s)"
    and "split1 NN chunk = [event_text, []]"
    and "\<not> stop_event s"
  shows "run loads stops s (Inr resp) [chunk] None = s"
proof -
  have "drain loads stops s [] = (None, s, [])"
    by (rule drain_none) (simp only: contains_NN simp_thms)
  with silent_frame_drain [OF assms(1,2)] assms(3) show ?thesis
    by (simp add: run_def)
qed


lemma map_exn_length: "map_exn f xs = Inr ys \<Longrightarrow> length ys = length xs"
  by (induction xs arbitrary: ys) (auto split: sum.splits)

lemma no_changes_iff: "from_stream_event (JObject d) = Inr [] \<longleftrightarrow> d = []"
  by (auto dest: map_exn_length)

section \<open>Chunk boundaries\<close>

text \<open>
  C1: when the stop flag is not set at the start and no delivery sets it, reading a
  response body chunk by chunk, however the text is cut into chunks (empty chunks
  included), ends in the same way and with the same sink invocations, in the same order,
  as reading the whole text as one chunk; so does the thread's \<^verbatim>\<open>_run\<close>.
\<close>

theorem chunk_boundary_independence:
  assumes "\<forall>changes. \<not> stops changes" and "\<not> stop_event s"
  shows "read_events loads stops ending s [] chunks =
           read_events loads stops ending s [] [concat chunks] \<and>
         run loads stops s (Inr resp) chunks ending =
           run loads stops s (Inr resp) [concat chunks] ending"
proof -
  from assms(1) have quiet: "stops = (\<lambda>changes. False)"
    by (simp add: fun_eq_iff)
  have "\<not> contains NN []" by (simp only: contains_NN simp_thms)
  with read_events_whole [OF quiet assms(2)]
  have "read_events loads stops ending s [] chunks =
      read_events loads stops ending s [] [concat chunks]"
    by blast
  then show ?thesis by (simp add: run_def)
qed

theorem chunk_boundary_independence_witness:
  "\<not> stop_event idle_stream \<and> concat three_chunks = two_frames \<and>
   read_events sample_loads no_stop None idle_stream [] [two_frames] =
     (None, idle_stream\<lparr>calls := [OnEvent [change_a], OnEvent [change_b]]\<rparr>) \<and>
   read_events sample_loads no_stop None idle_stream [] three_chunks =
     (None, idle_stream\<lparr>calls := [OnEvent [change_a], OnEvent [change_b]]\<rparr>)"
proof -
  have running: "\<not> stop_event idle_stream"
    by (simp add: idle_stream_def)
  have quiet: "\<forall>changes. \<not> no_stop changes"
    by (simp add: no_stop_def)
  have joined: "concat three_chunks = two_frames"
    by code_simp
  have whole: "read_events sample_loads no_stop None idle_stream [] [two_frames] =
      (None, idle_stream\<lparr>calls := [OnEvent [change_a], OnEvent [change_b]]\<rparr>)"
    by code_simp
  from chunk_boundary_independence [OF quiet running, of sample_loads None three_chunks]
  have "read_events sample_loads no_stop None idle_stream [] three_chunks =
      read_events sample_loads no_stop None idle_stream [] [two_frames]"
    by (simp only: joined)
  with running joined whole show ?thesis by simp
qed

section \<open>The stop flag\<close>




section \<open>Frames that are not JSON\<close>



section \<open>Frames that decode to nothing\<close>

text \<open>
  C10: a frame whose text decodes to a JSON value that is neither an object nor an array
  (null, a boolean, a number or a string), or to the empty object, is dropped silently:
  it is processed without invoking the sink, without raising and without changing the
  object; the loop goes on with the buffer behind the frame, and a stream that holds
  nothing but the frame ends with no callback at all.  An update map decodes to zero
  records exactly when it is the empty object, and an empty object inside an array is
  passed over in the same way.
\<close>

theorem empty_update_dropped:
  assumes "loads (data_str event_text) = Some j"
    and "case j of JArray xs \<Rightarrow> False | JObject d \<Rightarrow> d = [] | _ \<Rightarrow> True"
  shows "process_event_text loads stops s event_text = (None, s) \<and>
    (\<forall>buffer rest. split1 NN buffer = [event_text, rest] \<longrightarrow>
       drain loads stops s buffer = drain loads stops s rest) \<and>
    (\<forall>buffer chunk rest chunks.
       \<not> stop_event s \<and> split1 NN (buffer @ chunk) = [event_text, rest] \<longrightarrow>
       read_events loads stops ending s buffer (chunk # chunks) =
         read_events loads stops ending s rest ([] # chunks)) \<and>
    (\<forall>chunk resp. \<not> stop_event s \<and> split1 NN chunk = [event_text, []] \<longrightarrow>
       run loads stops s (Inr resp) [chunk] None = s) \<and>
    (\<forall>d. from_stream_event (JObject d) = Inr [] \<longleftrightarrow> d = []) \<and>
    (\<forall>items. deliver_all stops s (JObject [] # items) = deliver_all stops s items)"
proof -
  have silent: "process_event_text loads stops s event_text = (None, s)"
  proof (cases j)
    case (JObject d)
    with assms show ?thesis
      by (simp add: process_event_text_def deliver_def)
  next
    case (JArray xs)
    with assms(2) show ?thesis by simp
  qed (use assms in \<open>simp_all add: process_event_text_def\<close>)
  have "deliver_all stops s (JObject [] # items) = deliver_all stops s items" for items
    by (simp add: deliver_def)
  with silent silent_frame_drain [OF silent] silent_frame_read [OF silent]
    silent_frame_run [OF silent] no_changes_iff
  show ?thesis by blast
qed

theorem empty_update_dropped_witness:
  "sample_loads (data_str ''data: 5'') = Some (JInt 5) \<and>
   sample_loads (data_str ''data: {}'') = Some (JObject []) \<and>
   process_event_text sample_loads no_stop idle_stream ''data: 5'' = (None, idle_stream) \<and>
   process_event_text sample_loads no_stop idle_stream ''data: {}'' = (None, idle_stream) \<and>
   split1 NN (''data: {}'' @ NN @ frame_a @ NN) = [''data: {}'', frame_a @ NN] \<and>
   drain sample_loads no_stop idle_stream (''data: {}'' @ NN @ frame_a @ NN) =
     (None, idle_stream\<lparr>calls := [OnEvent [change_a]]\<rparr>, [])"
proof -
  have five: "sample_loads (data_str ''data: 5'') = Some (JInt 5)"
    and empty: "sample_loads (data_str ''data: {}'') = Some (JObject [])"
    by code_simp+
  have sp: "split1 NN (''data: {}'' @ NN @ frame_a @ NN) = [''data: {}'', frame_a @ NN]"
    by code_simp
  have after: "drain sample_loads no_stop idle_stream (frame_a @ NN) =
      (None, idle_stream\<lparr>calls := [OnEvent [change_a]]\<rparr>, [])"
    by code_simp
  from empty_update_dropped
    [where loads = sample_loads and event_text = "''data: 5''" and stops = no_stop
      and s = idle_stream, OF five]
  have "process_event_text sample_loads no_stop idle_stream ''data: 5'' = (None, idle_stream)"
    by simp
  moreover from empty_update_dropped
    [where loads = sample_loads and event_text = "''data: {}''" and stops = no_stop
      and s = idle_stream, OF empty] sp
  have "process_event_text sample_loads no_stop idle_stream ''data: {}'' = (None, idle_stream)"
    and "drain sample_loads no_stop idle_stream (''data: {}'' @ NN @ frame_a @ NN) =
      drain sample_loads no_stop idle_stream (frame_a @ NN)"
    by simp_all
  ultimately show ?thesis using five empty sp after by simp
qed

section \<open>Helper lemmas on the registry\<close>

lemma length_on_object [simp]: "length (on_object objs ref f) = length objs"
  by (simp add: on_object_def)

lemma on_object_stop_id [simp]:
  "r < length objs \<Longrightarrow> subscription_id (on_object objs ref stop ! r) = subscription_id (objs ! r)"
  by (simp add: on_object_def stop_def nth_list_update)









section \<open>One reader per subscription id\<close>



end
